theory Spec2Isabelle
  imports Main
begin

section \<open>The platform the service worker runs on\<close>

text \<open>
  The worker script (\<^verbatim>\<open>sw.js\<close>) is a set of event handlers over three browser
  services: \<^verbatim>\<open>fetch\<close> (the network), \<^verbatim>\<open>caches\<close> (the CacheStorage, a
  collection of named caches) and the worker's own lifecycle calls. The handlers are
  \<^verbatim>\<open>async\<close> functions; here a promise is a function from the world to a settled
  result (\<open>Inl\<close> a rejection, \<open>Inr\<close> a value) and the world afterwards.
\<close>

record response =
  status :: nat
  statusText :: string
  headers :: "(string \<times> string) list"
  body :: string

definition ok :: "response \<Rightarrow> bool" where
  \<comment> \<open>\<^verbatim>\<open>response.ok\<close>: the status is in the range 200-299.\<close>
  "ok r = (200 \<le> status r \<and> status r \<le> 299)"

record url =
  href :: string
  protocol :: string
  origin :: string
  pathname :: string

record request =
  http_method :: string
  url :: url
  accept :: "string option"

datatype error = NetworkError | StorageError | AddAllError | PutError

text \<open>
  A cache is a list of entries in insertion order, keyed by the request URL without its
  fragment (the request key of the specification: method and URL, the method being GET).
  The platform compares, beyond that key, the request headers that a stored response
  names in a \<^verbatim>\<open>Vary\<close> header; the model finds an entry by its key alone, which is
  the platform's matching in a cache whose responses name no such header (\<open>vary_free\<close>
  below), and the theorems on lookups and on overwriting are stated for such caches.
  (An entry is deleted through its own stored request, which matches it whatever that
  header says.) The CacheStorage is a list of named caches in creation order. \<open>faults\<close> is the script of
  the storage backend: each storage operation consumes its head, and rejects when it is
  \<open>True\<close>; the empty script is a backend that never fails. \<open>network\<close> answers a URL with
  a response, or with \<open>None\<close> when the request cannot be completed.
\<close>

type_synonym cache = "(string \<times> response) list"

record world =
  stores :: "(string \<times> cache) list"
  faults :: "bool list"
  network :: "string \<Rightarrow> response option"
  location_origin :: string
  skipWaiting_called :: bool
  clients_claimed :: bool

type_synonym 'a promise = "world \<Rightarrow> (error + 'a) \<times> world"

definition resolve :: "'a \<Rightarrow> 'a promise" where
  "resolve x = (\<lambda>w. (Inr x, w))"

definition reject :: "error \<Rightarrow> 'a promise" where
  "reject e = (\<lambda>w. (Inl e, w))"

definition await :: "'a promise \<Rightarrow> ('a \<Rightarrow> 'b promise) \<Rightarrow> 'b promise" where
  \<comment> \<open>\<^verbatim>\<open>const x = await m; f(x)\<close>: a rejection of \<open>m\<close> is thrown on.\<close>
  "await m f = (\<lambda>w. case m w of (Inl e, w') \<Rightarrow> (Inl e, w') | (Inr x, w') \<Rightarrow> f x w')"

definition try_catch :: "'a promise \<Rightarrow> (error \<Rightarrow> 'a promise) \<Rightarrow> 'a promise" where
  \<comment> \<open>\<^verbatim>\<open>try { m } catch (error) { h(error) }\<close>\<close>
  "try_catch m h = (\<lambda>w. case m w of (Inl e, w') \<Rightarrow> h e w' | (Inr x, w') \<Rightarrow> (Inr x, w'))"

definition detached :: "'a promise \<Rightarrow> unit promise" where
  \<comment> \<open>A promise that is started and not awaited: its effect on the world happens, its
      value and its rejection are dropped.\<close>
  "detached m = (\<lambda>w. (Inr (), snd (m w)))"

fun promise_all :: "'a promise list \<Rightarrow> 'a list promise" where
  \<comment> \<open>\<^verbatim>\<open>Promise.all\<close> over promises already started: all of them run, the first
      rejection is the result.\<close>
  "promise_all [] = (\<lambda>w. (Inr [], w))"
| "promise_all (p # ps) = (\<lambda>w.
     case p w of (r, w1) \<Rightarrow>
     case promise_all ps w1 of (rs, w2) \<Rightarrow>
       (case r of Inl e \<Rightarrow> Inl e
        | Inr x \<Rightarrow> (case rs of Inl e \<Rightarrow> Inl e | Inr xs \<Rightarrow> Inr (x # xs)), w2))"

subsection \<open>Network\<close>

definition fetch :: "request \<Rightarrow> response promise" where
  \<comment> \<open>\<^verbatim>\<open>fetch(request)\<close> rejects on a network error only; a response with an error
      status is a resolved promise.\<close>
  "fetch request = (\<lambda>w. case network w (href (url request)) of
       None \<Rightarrow> (Inl NetworkError, w)
     | Some r \<Rightarrow> (Inr r, w))"

subsection \<open>Strings and patterns\<close>

fun startsWith :: "string \<Rightarrow> string \<Rightarrow> bool" where
  "startsWith s [] = True"
| "startsWith [] (c # p) = False"
| "startsWith (d # s) (c # p) = (d = c \<and> startsWith s p)"

fun includes_str :: "string \<Rightarrow> string \<Rightarrow> bool" where
  \<comment> \<open>\<^verbatim>\<open>s.includes(sub)\<close>\<close>
  "includes_str [] sub = (sub = [])"
| "includes_str (c # s) sub = (startsWith (c # s) sub \<or> includes_str s sub)"

definition endsWith :: "string \<Rightarrow> string \<Rightarrow> bool" where
  "endsWith s suf = startsWith (rev s) (rev suf)"

text \<open>
  The regular expressions of the script are of two shapes only: a literal to be found
  anywhere (\<^verbatim>\<open>/\/api\//\<close>) and a literal anchored at the end (\<^verbatim>\<open>/\.html$/\<close>).
\<close>

datatype pattern = Contains string | AtEnd string

fun test :: "pattern \<Rightarrow> string \<Rightarrow> bool" where
  "test (Contains lit) s = includes_str s lit"
| "test (AtEnd lit) s = endsWith s lit"

definition some :: "'a list \<Rightarrow> ('a \<Rightarrow> bool) \<Rightarrow> bool" where
  "some xs p = list_ex p xs"

subsection \<open>What a cache accepts\<close>

definition lower_char :: "char \<Rightarrow> char" where
  \<comment> \<open>Header names are compared without regard to case.\<close>
  "lower_char c =
     (case map_of (zip ''ABCDEFGHIJKLMNOPQRSTUVWXYZ'' ''abcdefghijklmnopqrstuvwxyz'') c of
        None \<Rightarrow> c
      | Some d \<Rightarrow> d)"

fun split_on :: "char \<Rightarrow> string \<Rightarrow> string list" where
  "split_on c [] = [[]]"
| "split_on c (x # xs) =
     (if x = c then [] # split_on c xs
      else (case split_on c xs of [] \<Rightarrow> [[x]] | y # ys \<Rightarrow> (x # y) # ys))"

definition trim :: "string \<Rightarrow> string" where
  "trim s =
     rev (dropWhile (\<lambda>c. c = CHR '' '' \<or> c = CHR 0x09)
       (rev (dropWhile (\<lambda>c. c = CHR '' '' \<or> c = CHR 0x09) s)))"

definition vary_fields :: "response \<Rightarrow> string list" where
  \<comment> \<open>The field values of the \<^verbatim>\<open>Vary\<close> headers of a response.\<close>
  "vary_fields r =
     concat (map (\<lambda>(name, v). if map lower_char name = ''vary''
                                then map trim (split_on CHR '','' v) else [])
               (headers r))"

definition storable :: "response \<Rightarrow> bool" where
  \<comment> \<open>\<^verbatim>\<open>Cache.put\<close> and \<^verbatim>\<open>Cache.addAll\<close> refuse a partial response (status 206) and
      a response with \<^verbatim>\<open>Vary: *\<close>.\<close>
  "storable r = (status r \<noteq> 206 \<and> ''*'' \<notin> set (vary_fields r))"

definition scheme_of :: "string \<Rightarrow> string" where
  "scheme_of u = takeWhile (\<lambda>c. c \<noteq> CHR '':'') u @ '':''"

definition http_scheme :: "string \<Rightarrow> bool" where
  "http_scheme scheme = (scheme = ''http:'' \<or> scheme = ''https:'')"

definition cacheable_request :: "request \<Rightarrow> bool" where
  \<comment> \<open>\<^verbatim>\<open>Cache.put\<close> refuses a request that is not a GET over http(s).\<close>
  "cacheable_request request =
     (http_method request = ''GET'' \<and> http_scheme (protocol (url request)))"

definition key_of :: "request \<Rightarrow> string" where
  \<comment> \<open>The URL of the request with the fragment left out.\<close>
  "key_of request = takeWhile (\<lambda>c. c \<noteq> CHR ''#'') (href (url request))"


definition match_entry :: "request \<Rightarrow> cache \<Rightarrow> response option" where
  \<comment> \<open>The first entry a request matches: none for a request that is not a GET.\<close>
  "match_entry request es =
     (if http_method request = ''GET'' then map_of es (key_of request) else None)"

subsection \<open>CacheStorage and Cache\<close>

definition storage_op :: "(world \<Rightarrow> 'a \<times> world) \<Rightarrow> 'a promise" where
  "storage_op f = (\<lambda>w. case faults w of
       [] \<Rightarrow> (case f w of (x, w') \<Rightarrow> (Inr x, w'))
     | b # bs \<Rightarrow>
         if b then (Inl StorageError, w\<lparr>faults := bs\<rparr>)
         else (case f (w\<lparr>faults := bs\<rparr>) of (x, w') \<Rightarrow> (Inr x, w')))"

definition entries :: "string \<Rightarrow> world \<Rightarrow> cache" where
  "entries name w = (case map_of (stores w) name of None \<Rightarrow> [] | Some es \<Rightarrow> es)"

definition update_entries :: "string \<Rightarrow> (cache \<Rightarrow> cache) \<Rightarrow> world \<Rightarrow> world" where
  "update_entries name f w =
     w\<lparr>stores := map (\<lambda>(n, es). if n = name then (n, f es) else (n, es)) (stores w)\<rparr>"

definition caches_open :: "string \<Rightarrow> string promise" where
  \<comment> \<open>\<^verbatim>\<open>caches.open(name)\<close> creates the cache when there is none of that name.\<close>
  "caches_open name = storage_op (\<lambda>w.
     (name, if name \<in> set (map fst (stores w)) then w
            else w\<lparr>stores := stores w @ [(name, [])]\<rparr>))"

definition caches_keys :: "string list promise" where
  "caches_keys = storage_op (\<lambda>w. (map fst (stores w), w))"

definition caches_delete :: "string \<Rightarrow> bool promise" where
  "caches_delete name = storage_op (\<lambda>w.
     (name \<in> set (map fst (stores w)),
      w\<lparr>stores := filter (\<lambda>(n, es). n \<noteq> name) (stores w)\<rparr>))"

definition cache_match :: "string \<Rightarrow> request \<Rightarrow> response option promise" where
  \<comment> \<open>\<^verbatim>\<open>cache.match(request)\<close>: \<open>None\<close> is JavaScript's \<^verbatim>\<open>undefined\<close>. A request
      that is not a GET is answered at once, without a look at the store.\<close>
  "cache_match cache request = (\<lambda>w.
     if http_method request \<noteq> ''GET'' then (Inr None, w)
     else storage_op (\<lambda>w. (match_entry request (entries cache w), w)) w)"

definition put_entry :: "string \<Rightarrow> response \<Rightarrow> cache \<Rightarrow> cache" where
  \<comment> \<open>An entry of the same key is removed, the new one is appended.\<close>
  "put_entry key r es = filter (\<lambda>(k, v). k \<noteq> key) es @ [(key, r)]"

definition cache_put :: "string \<Rightarrow> request \<Rightarrow> response \<Rightarrow> unit promise" where
  \<comment> \<open>\<^verbatim>\<open>cache.put(request, response)\<close> rejects, before it touches the store, a request
      that is not a GET over http(s), a partial response and a response with
      \<^verbatim>\<open>Vary: *\<close>.\<close>
  "cache_put cache request r = (\<lambda>w.
     if \<not> cacheable_request request \<or> \<not> storable r then (Inl PutError, w)
     else storage_op (\<lambda>w. ((), update_entries cache (put_entry (key_of request) r) w)) w)"

definition cache_keys :: "string \<Rightarrow> string list promise" where
  "cache_keys cache = storage_op (\<lambda>w. (map fst (entries cache w), w))"

definition cache_delete :: "string \<Rightarrow> string \<Rightarrow> bool promise" where
  "cache_delete cache key = storage_op (\<lambda>w.
     (key \<in> set (map fst (entries cache w)),
      update_entries cache (filter (\<lambda>(k, v). k \<noteq> key)) w))"




subsection \<open>Lifecycle calls\<close>


definition clients_claim :: "unit promise" where
  "clients_claim = (\<lambda>w. (Inr (), w\<lparr>clients_claimed := True\<rparr>))"

section \<open>The worker script\<close>

definition CACHE_NAME :: string where
  "CACHE_NAME = ''tumatch-protocolo-v1.0.0''"

definition STATIC_CACHE :: string where
  "STATIC_CACHE = CACHE_NAME @ ''-static''"

definition DYNAMIC_CACHE :: string where
  "DYNAMIC_CACHE = CACHE_NAME @ ''-dynamic''"

definition STATIC_ASSETS :: "string list" where
  "STATIC_ASSETS =
     [''/'', ''/Inicio.html'', ''/css/variables.css'', ''/css/base.css'',
      ''/css/components.css'', ''/css/layout.css'', ''/js/utils.js'', ''/js/search.js'',
      ''/js/modal.js'', ''/js/main.js'', ''/manifest.json'']"

definition DYNAMIC_ASSETS_PATTERNS :: "pattern list" where
  "DYNAMIC_ASSETS_PATTERNS =
     [AtEnd ''.html'', AtEnd ''.css'', AtEnd ''.js'', AtEnd ''.png'', AtEnd ''.jpg'',
      AtEnd ''.jpeg'', AtEnd ''.svg'', AtEnd ''.webp'']"

definition NETWORK_FIRST_PATTERNS :: "pattern list" where
  "NETWORK_FIRST_PATTERNS =
     [Contains ''/api/'', Contains ''googleapis.com'', Contains ''googleusercontent.com'',
      Contains ''youtube.com'', Contains ''docs.google.com'']"

subsection \<open>Install and activate\<close>


definition activate :: "unit promise" where
  \<comment> \<open>The promise handed to \<^verbatim>\<open>event.waitUntil\<close> by the activate listener.\<close>
  "activate =
     try_catch
       (await caches_keys (\<lambda>cacheNames.
        await (promise_all (map caches_delete
                 (filter (\<lambda>name. startsWith name ''tumatch-protocolo-''
                                 \<and> name \<noteq> STATIC_CACHE \<and> name \<noteq> DYNAMIC_CACHE)
                    cacheNames))) (\<lambda>_.
        clients_claim)))
       (\<lambda>error. resolve ())"

subsection \<open>Strategies\<close>

definition shouldCache :: "request \<Rightarrow> bool" where
  "shouldCache request =
     (if some NETWORK_FIRST_PATTERNS (\<lambda>pattern. test pattern (href (url request))) then False
      else some DYNAMIC_ASSETS_PATTERNS (\<lambda>pattern. test pattern (pathname (url request))))"

definition getCachedResponse :: "request \<Rightarrow> response option promise" where
  "getCachedResponse request =
     await (caches_open STATIC_CACHE) (\<lambda>cache.
     await (cache_match cache request) (\<lambda>cached.
     case cached of
       Some c \<Rightarrow> resolve (Some c)
     | None \<Rightarrow>
         await (caches_open DYNAMIC_CACHE) (\<lambda>cache.
         await (cache_match cache request) (\<lambda>cached.
         resolve cached))))"

definition updateCacheInBackground :: "request \<Rightarrow> string \<Rightarrow> unit promise" where
  "updateCacheInBackground request cache =
     try_catch
       (await (fetch request) (\<lambda>response.
        if ok response then detached (cache_put cache request response)
        else resolve ()))
       (\<lambda>error. resolve ())"

definition cacheFirst :: "request \<Rightarrow> response promise" where
  \<comment> \<open>On a hit the refresh is started and not awaited; the world returned is the one
      after the refresh has run.\<close>
  "cacheFirst request =
     await (caches_open STATIC_CACHE) (\<lambda>cache.
     await (cache_match cache request) (\<lambda>cached.
     case cached of
       Some c \<Rightarrow>
         await (detached (updateCacheInBackground request cache)) (\<lambda>_.
         resolve c)
     | None \<Rightarrow>
         await (fetch request) (\<lambda>response.
         await (if ok response then detached (cache_put cache request response)
                else resolve ()) (\<lambda>_.
         resolve response))))"

definition networkFirst :: "request \<Rightarrow> response promise" where
  "networkFirst request =
     try_catch
       (await (fetch request) (\<lambda>response.
        await (if ok response \<and> shouldCache request
               then await (caches_open DYNAMIC_CACHE) (\<lambda>cache.
                    detached (cache_put cache request response))
               else resolve ()) (\<lambda>_.
        resolve response)))
       (\<lambda>error.
        await (getCachedResponse request) (\<lambda>cached.
        case cached of
          Some c \<Rightarrow> resolve c
        | None \<Rightarrow> reject error))"

subsection \<open>Offline fallback\<close>

definition accept_includes :: "request \<Rightarrow> string \<Rightarrow> bool" where
  \<comment> \<open>\<^verbatim>\<open>request.headers.get('accept')?.includes(s)\<close>: a missing header is falsy.\<close>
  "accept_includes request s = (case accept request of None \<Rightarrow> False | Some a \<Rightarrow> includes_str a s)"

definition NL :: string where
  "NL = [CHR 0x0A]"

definition placeholder_svg :: string where
  \<open>placeholder_svg =
     ''<svg xmlns="http://www.w3.org/2000/svg" width="200" height="150" viewBox="0 0 200 150">'' @ NL @
     ''                <rect width="200" height="150" fill="#f0f0f0"/>'' @ NL @
     ''                <text x="50%" y="50%" text-anchor="middle" dy=".3em" fill="#999">'' @ NL @
     ''                    Sin conexi'' @ [CHR 0xC3, CHR 0xB3] @ ''n'' @ NL @
     ''                </text>'' @ NL @
     ''            </svg>''\<close>

definition placeholder_response :: response where
  "placeholder_response =
     \<lparr>status = 200, statusText = '''',
      headers = [(''Content-Type'', ''image/svg+xml''), (''Cache-Control'', ''no-cache'')],
      body = placeholder_svg\<rparr>"

definition offline_response :: response where
  "offline_response =
     \<lparr>status = 503, statusText = ''Service Unavailable'',
      headers = [(''Content-Type'', ''text/plain'')],
      body = ''Contenido no disponible sin conexi'' @ [CHR 0xC3, CHR 0xB3] @ ''n''\<rparr>"

definition getOfflineFallback_rest :: "request \<Rightarrow> response promise" where
  \<comment> \<open>The part of \<^verbatim>\<open>getOfflineFallback\<close> after the HTML branch.\<close>
  "getOfflineFallback_rest request =
     (if accept_includes request ''image'' then
        await (getCachedResponse request) (\<lambda>cached.
        case cached of
          Some c \<Rightarrow> resolve c
        | None \<Rightarrow> resolve placeholder_response)
      else resolve offline_response)"

definition new_Request :: "world \<Rightarrow> string \<Rightarrow> request" where
  \<comment> \<open>\<^verbatim>\<open>new Request(path)\<close>: a GET for the path, resolved against the worker's origin,
      with no header set.\<close>
  "new_Request w path =
     \<lparr>http_method = ''GET'',
      url = \<lparr>href = location_origin w @ path, protocol = scheme_of (location_origin w),
             origin = location_origin w, pathname = path\<rparr>,
      accept = None\<rparr>"

definition getOfflineFallback :: "request \<Rightarrow> response promise" where
  "getOfflineFallback request =
     (if accept_includes request ''text/html'' then
        (\<lambda>w. await (getCachedResponse (new_Request w ''/Inicio.html'')) (\<lambda>cached.
              case cached of
                Some c \<Rightarrow> resolve c
              | None \<Rightarrow> getOfflineFallback_rest request) w)
      else getOfflineFallback_rest request)"

subsection \<open>The fetch handler\<close>

definition handleFetch :: "request \<Rightarrow> response promise" where
  "handleFetch request = (\<lambda>w.
     try_catch
       (if some NETWORK_FIRST_PATTERNS (\<lambda>pattern. test pattern (href (url request)))
        then networkFirst request
        else if pathname (url request) \<in> set STATIC_ASSETS \<or> origin (url request) = location_origin w
        then cacheFirst request
        else networkFirst request)
       (\<lambda>error. getOfflineFallback request) w)"

datatype fetch_event_outcome = PassThrough | RespondWith "error + response"

definition fetch_listener :: "request \<Rightarrow> world \<Rightarrow> fetch_event_outcome \<times> world" where
  \<comment> \<open>A listener that returns without \<^verbatim>\<open>event.respondWith\<close> leaves the request to
      the browser.\<close>
  "fetch_listener request w =
     (if http_method request \<noteq> ''GET'' then (PassThrough, w)
      else if protocol (url request) = ''chrome-extension:'' then (PassThrough, w)
      else (case handleFetch request w of (r, w') \<Rightarrow> (RespondWith r, w')))"

subsection \<open>Maintenance\<close>

definition cleanupCaches :: "unit promise" where
  "cleanupCaches =
     await (caches_open DYNAMIC_CACHE) (\<lambda>dynamicCache.
     await (cache_keys dynamicCache) (\<lambda>requests.
     if length requests > 50 then
       await (promise_all (map (\<lambda>request. cache_delete dynamicCache request) (take 10 requests))) (\<lambda>_.
       resolve ())
     else resolve ()))"

section \<open>Frames\<close>

text \<open>
  \<open>keeps R m\<close>: running \<open>m\<close> from any world \<open>w\<close> ends in a world related to \<open>w\<close>
  by \<open>R\<close>, whether \<open>m\<close> resolves or rejects.
\<close>

definition keeps :: "(world \<Rightarrow> world \<Rightarrow> bool) \<Rightarrow> 'a promise \<Rightarrow> bool" where
  "keeps R m = (\<forall>w. R w (snd (m w)))"

definition same_entries :: "world \<Rightarrow> world \<Rightarrow> bool" where
  \<comment> \<open>No cache has gained, lost or changed an entry, and the lifecycle flags and the
      environment are as they were; caches may have been created empty.\<close>
  "same_entries w w' =
     ((\<forall>name. entries name w' = entries name w)
      \<and> skipWaiting_called w' = skipWaiting_called w
      \<and> clients_claimed w' = clients_claimed w
      \<and> network w' = network w \<and> location_origin w' = location_origin w)"



definition still_working :: "world \<Rightarrow> world \<Rightarrow> bool" where
  \<comment> \<open>A storage backend that had no failure left to deliver has none afterwards.\<close>
  "still_working w w' = (faults w \<noteq> [] \<or> faults w' = [])"

section \<open>The routing table in the words of the specification\<close>

text \<open>
  The specification describes the dispatch of \<^verbatim>\<open>handleFetch\<close> as an ordered table of
  rules of which the first that matches wins. \<open>spec_rules\<close> is that table as the
  specification words it: the second rule asks whether the URL of the request is in the
  declared list of assets, whose paths are resolved against the worker's origin, or is
  of the worker's origin. \<open>script_rules\<close> differs in the second rule only, which asks
  whether the path of the URL is in the list, whatever the origin. The script's own
  chain of conditionals is \<open>handleFetch\<close> above.
\<close>

datatype strategy = CacheFirst | NetworkFirst

definition matches_network_first :: "request \<Rightarrow> bool" where
  "matches_network_first request =
     some NETWORK_FIRST_PATTERNS (\<lambda>pattern. test pattern (href (url request)))"

definition first_match :: "((request \<Rightarrow> bool) \<times> strategy) list \<Rightarrow> request \<Rightarrow> strategy option" where
  "first_match rules request = map_option snd (find (\<lambda>(applies, s). applies request) rules)"

definition spec_rules :: "string \<Rightarrow> ((request \<Rightarrow> bool) \<times> strategy) list" where
  "spec_rules here =
     [(matches_network_first, NetworkFirst),
      (\<lambda>request. key_of request \<in> set (map (\<lambda>p. here @ p) STATIC_ASSETS)
                  \<or> origin (url request) = here,
       CacheFirst),
      (\<lambda>request. True, NetworkFirst)]"

definition spec_classify :: "string \<Rightarrow> request \<Rightarrow> strategy option" where
  "spec_classify here request = first_match (spec_rules here) request"

definition script_rules :: "string \<Rightarrow> ((request \<Rightarrow> bool) \<times> strategy) list" where
  "script_rules here =
     [(matches_network_first, NetworkFirst),
      (\<lambda>request. pathname (url request) \<in> set STATIC_ASSETS \<or> origin (url request) = here,
       CacheFirst),
      (\<lambda>request. True, NetworkFirst)]"

definition script_classify :: "string \<Rightarrow> request \<Rightarrow> strategy option" where
  "script_classify here request = first_match (script_rules here) request"

fun run_strategy :: "strategy \<Rightarrow> request \<Rightarrow> response promise" where
  "run_strategy CacheFirst request = cacheFirst request"
| "run_strategy NetworkFirst request = networkFirst request"

section \<open>Example worlds and requests\<close>

definition site :: string where
  "site = ''https://tumatch.example''"

definition get_request :: "string \<Rightarrow> string \<Rightarrow> string \<Rightarrow> string option \<Rightarrow> request" where
  "get_request scheme host path acc =
     \<lparr>http_method = ''GET'',
      url = \<lparr>href = scheme @ ''//'' @ host @ path, protocol = scheme,
             origin = scheme @ ''//'' @ host, pathname = path\<rparr>,
      accept = acc\<rparr>"

definition page :: "string \<Rightarrow> response" where
  "page b = \<lparr>status = 200, statusText = ''OK'',
             headers = [(''Content-Type'', ''text/html'')], body = b\<rparr>"


definition no_network :: "string \<Rightarrow> response option" where
  "no_network u = None"

definition serve_all :: "string \<Rightarrow> response option" where
  "serve_all u = Some (page u)"


definition offline_world :: world where
  "offline_world =
     \<lparr>stores = [], faults = [], network = no_network, location_origin = site,
      skipWaiting_called = False, clients_claimed = False\<rparr>"

definition online_world :: world where
  "online_world = offline_world\<lparr>network := serve_all\<rparr>"

definition api_request :: request where
  "api_request = get_request ''https:'' ''www.googleapis.com'' ''/fonts/v1'' None"

definition extension_request :: request where
  "extension_request = get_request ''moz-extension:'' ''0a1b2c3d'' ''/icon.png'' None"

definition chrome_extension_request :: request where
  "chrome_extension_request = get_request ''chrome-extension:'' ''abcdefgh'' ''/icon.png'' None"

definition upgrade_world :: world where
  "upgrade_world =
     offline_world\<lparr>stores :=
       [(''tumatch-protocolo-v0.9.0-static'', [(site @ ''/'', page ''old'')]),
        (''tumatch-protocolo-v0.9.0-dynamic'', []),
        (STATIC_CACHE, [(site @ ''/'', page ''new'')])]\<rparr>"





definition home_request :: request where
  "home_request =
     get_request ''https:'' ''tumatch.example'' ''/Inicio.html''
       (Some ''text/html,application/xhtml+xml'')"


definition numbered_key :: "nat \<Rightarrow> string" where
  "numbered_key i = site @ ''/img/'' @ replicate i CHR ''x'' @ ''.png''"

definition full_world :: world where
  "full_world =
     offline_world\<lparr>stores :=
       [(DYNAMIC_CACHE, map (\<lambda>i. (numbered_key i, page (numbered_key i))) [0..<51])]\<rparr>"





definition cdn_asset_request :: request where
  "cdn_asset_request = get_request ''https:'' ''cdn.example'' ''/js/main.js'' None"





definition broken_storage_world :: world where
  "broken_storage_world = offline_world\<lparr>faults := [True, True]\<rparr>"

section \<open>Properties of the platform operations\<close>

lemmas promise_defs = resolve_def reject_def await_def try_catch_def detached_def

subsection \<open>Storage operations and entries\<close>

lemma storage_op_nofault:
  "faults w = [] \<Longrightarrow> storage_op f w = (Inr (fst (f w)), snd (f w))"
  by (simp add: storage_op_def split: prod.splits)

lemma entries_faults [simp]: "entries n (w\<lparr>faults := bs\<rparr>) = entries n w"
  by (simp add: entries_def)

lemma entries_flags [simp]:
  "entries n (w\<lparr>skipWaiting_called := b\<rparr>) = entries n w"
  "entries n (w\<lparr>clients_claimed := b\<rparr>) = entries n w"
  by (simp_all add: entries_def)

lemma map_of_append_empty:
  "(case map_of (xs @ [(m, [])]) n of None \<Rightarrow> [] | Some es \<Rightarrow> es)
   = (case map_of xs n of None \<Rightarrow> [] | Some es \<Rightarrow> es)"
  by (cases "map_of xs n") (simp_all add: map_add_def)

lemma entries_new_store [simp]:
  "entries n (w\<lparr>stores := stores w @ [(m, [])]\<rparr>) = entries n w"
  by (simp add: entries_def map_of_append_empty del: map_of_append)

lemma map_of_map_update:
  "map_of (map (\<lambda>(n, es). if n = m then (n, f es) else (n, es)) xs) n
   = (if n = m then map_option f (map_of xs n) else map_of xs n)"
  by (induction xs) auto

lemma entries_update_entries:
  "entries n (update_entries m f w)
   = (if n = m \<and> n \<in> fst ` set (stores w) then f (entries n w) else entries n w)"
proof (cases "map_of (stores w) n")
  case None
  then have "n \<notin> fst ` set (stores w)" by (simp add: map_of_eq_None_iff)
  then show ?thesis using None
    by (auto simp: entries_def update_entries_def map_of_map_update)
next
  case (Some es)
  then have "n \<in> fst ` set (stores w)" by (metis map_of_eq_None_iff option.distinct(1))
  then show ?thesis using Some
    by (auto simp: entries_def update_entries_def map_of_map_update)
qed

lemma entries_update_other [simp]:
  "n \<noteq> m \<Longrightarrow> entries n (update_entries m f w) = entries n w"
  by (simp add: entries_update_entries)

lemma update_entries_fields [simp]:
  "faults (update_entries m f w) = faults w"
  "network (update_entries m f w) = network w"
  "location_origin (update_entries m f w) = location_origin w"
  "skipWaiting_called (update_entries m f w) = skipWaiting_called w"
  "clients_claimed (update_entries m f w) = clients_claimed w"
  by (simp_all add: update_entries_def)


lemma cache_match_unfold:
  "cache_match cache request =
     (if http_method request \<noteq> ''GET'' then resolve None
      else storage_op (\<lambda>w. (match_entry request (entries cache w), w)))"
  by (auto simp: cache_match_def resolve_def fun_eq_iff)

lemma cache_put_unfold:
  "cache_put cache request r =
     (if \<not> cacheable_request request \<or> \<not> storable r then reject PutError
      else storage_op (\<lambda>w. ((), update_entries cache (put_entry (key_of request) r) w)))"
  by (auto simp: cache_put_def reject_def fun_eq_iff)

subsection \<open>Frame rules\<close>

lemma keepsI: "(\<And>w. R w (snd (m w))) \<Longrightarrow> keeps R m"
  by (simp add: keeps_def)

lemma keepsD: "keeps R m \<Longrightarrow> R w (snd (m w))"
  by (simp add: keeps_def)

lemma keeps_resolve: "reflp R \<Longrightarrow> keeps R (resolve x)"
  by (simp add: keeps_def resolve_def reflp_def)

lemma keeps_reject: "reflp R \<Longrightarrow> keeps R (reject e)"
  by (simp add: keeps_def reject_def reflp_def)

lemma keeps_await:
  assumes "transp R" "keeps R m" "\<And>x. keeps R (f x)"
  shows "keeps R (await m f)"
proof (rule keepsI)
  fix w
  obtain r w1 where m: "m w = (r, w1)" by (cases "m w")
  have 1: "R w w1" using keepsD [OF assms(2), of w] m by simp
  show "R w (snd (await m f w))"
  proof (cases r)
    case (Inl e)
    then show ?thesis using m 1 by (simp add: await_def)
  next
    case (Inr x)
    have "R w1 (snd (f x w1))" using keepsD [OF assms(3)] .
    with 1 have "R w (snd (f x w1))" using assms(1) by (blast dest: transpD)
    then show ?thesis using m Inr by (simp add: await_def)
  qed
qed

lemma keeps_try_catch:
  assumes "transp R" "keeps R m" "\<And>e. keeps R (h e)"
  shows "keeps R (try_catch m h)"
proof (rule keepsI)
  fix w
  obtain r w1 where m: "m w = (r, w1)" by (cases "m w")
  have 1: "R w w1" using keepsD [OF assms(2), of w] m by simp
  show "R w (snd (try_catch m h w))"
  proof (cases r)
    case (Inr x)
    then show ?thesis using m 1 by (simp add: try_catch_def)
  next
    case (Inl e)
    have "R w1 (snd (h e w1))" using keepsD [OF assms(3)] .
    with 1 have "R w (snd (h e w1))" using assms(1) by (blast dest: transpD)
    then show ?thesis using m Inl by (simp add: try_catch_def)
  qed
qed

lemma keeps_detached: "keeps R m \<Longrightarrow> keeps R (detached m)"
  by (simp add: keeps_def detached_def)

lemma keeps_storage_op:
  assumes "transp R" "\<And>w bs. R w (w\<lparr>faults := bs\<rparr>)" "\<And>w. R w (snd (f w))"
  shows "keeps R (storage_op f)"
proof (rule keepsI)
  fix w
  show "R w (snd (storage_op f w))"
  proof (cases "faults w")
    case Nil
    then show ?thesis using assms(3) [of w] by (cases "f w") (simp add: storage_op_def)
  next
    case (Cons b bs)
    have "R w (w\<lparr>faults := bs\<rparr>)" by (rule assms(2))
    moreover have "R (w\<lparr>faults := bs\<rparr>) (snd (f (w\<lparr>faults := bs\<rparr>)))" by (rule assms(3))
    ultimately have "R w (snd (f (w\<lparr>faults := bs\<rparr>)))" using assms(1) by (blast dest: transpD)
    then show ?thesis using Cons assms(2) [of w bs]
      by (cases "f (w\<lparr>faults := bs\<rparr>)") (simp add: storage_op_def)
  qed
qed

lemma keeps_fetch: "reflp R \<Longrightarrow> keeps R (fetch request)"
  by (simp add: keeps_def fetch_def reflp_def split: option.splits)

lemma same_entries_pre: "reflp same_entries" "transp same_entries"
  by (auto simp: reflp_def transp_def same_entries_def)



lemma same_entries_faults: "same_entries w (w\<lparr>faults := bs\<rparr>)"
  by (simp add: same_entries_def)

lemma keeps_caches_open: "keeps same_entries (caches_open name)"
  unfolding caches_open_def
  by (rule keeps_storage_op) (simp_all add: same_entries_pre same_entries_def)

lemma keeps_cache_match: "keeps same_entries (cache_match cache request)"
proof (cases "http_method request = ''GET''")
  case True
  have "keeps same_entries (storage_op (\<lambda>w. (match_entry request (entries cache w), w)))"
    by (rule keeps_storage_op) (simp_all add: same_entries_pre same_entries_def)
  then show ?thesis using True by (simp add: cache_match_unfold)
next
  case False
  then show ?thesis by (simp add: cache_match_unfold keeps_resolve same_entries_pre)
qed

lemma keeps_getCachedResponse: "keeps same_entries (getCachedResponse request)"
  unfolding getCachedResponse_def
  by (intro keeps_await keeps_caches_open keeps_cache_match same_entries_pre allI)
     (auto split: option.splits intro!: keeps_resolve keeps_await keeps_caches_open keeps_cache_match same_entries_pre)




lemma keeps_getOfflineFallback_rest: "keeps same_entries (getOfflineFallback_rest request)"
  unfolding getOfflineFallback_rest_def
  by (auto split: option.splits
      intro!: keeps_resolve keeps_await keeps_getCachedResponse same_entries_pre)

lemma keeps_getOfflineFallback: "keeps same_entries (getOfflineFallback request)"
proof (cases "accept_includes request ''text/html''")
  case False
  then show ?thesis by (simp add: getOfflineFallback_def keeps_getOfflineFallback_rest)
next
  case True
  have "keeps same_entries (await (getCachedResponse home) (\<lambda>cached.
          case cached of Some c \<Rightarrow> resolve c | None \<Rightarrow> getOfflineFallback_rest request))" for home
    by (auto split: option.splits
        intro!: keeps_resolve keeps_await keeps_getCachedResponse keeps_getOfflineFallback_rest
          same_entries_pre)
  then show ?thesis using True by (simp add: getOfflineFallback_def keeps_def)
qed

lemma keeps_networkFirst_uncached:
  "\<not> shouldCache request \<Longrightarrow> keeps same_entries (networkFirst request)"
  unfolding networkFirst_def
  by (auto split: option.splits
      intro!: keeps_try_catch keeps_resolve keeps_reject keeps_await keeps_fetch
        keeps_getCachedResponse same_entries_pre)

lemma shouldCache_network_first:
  "some NETWORK_FIRST_PATTERNS (\<lambda>pattern. test pattern (href (url request)))
   \<Longrightarrow> \<not> shouldCache request"
  by (simp add: shouldCache_def)

lemma api_request_matches:
  "some NETWORK_FIRST_PATTERNS (\<lambda>pattern. test pattern (href (url api_request)))"
  by (simp add: api_request_def get_request_def some_def NETWORK_FIRST_PATTERNS_def)

subsection \<open>Activation\<close>

lemma promise_all_caches_delete:
  "faults w = [] \<Longrightarrow>
   \<exists>bs. promise_all (map caches_delete ns) w
     = (Inr bs, w\<lparr>stores := filter (\<lambda>(n, es). n \<notin> set ns) (stores w)\<rparr>)"
proof (induction ns arbitrary: w)
  case Nil
  then show ?case by simp
next
  case (Cons n ns)
  let ?w1 = "w\<lparr>stores := filter (\<lambda>(m, es). m \<noteq> n) (stores w)\<rparr>"
  have 1: "caches_delete n w = (Inr (n \<in> set (map fst (stores w))), ?w1)"
    using Cons.prems by (simp add: caches_delete_def storage_op_nofault)
  have 2: "faults ?w1 = []" using Cons.prems by simp
  have 3: "filter (\<lambda>(m, es). m \<notin> set ns) (filter (\<lambda>(m, es). m \<noteq> n) (stores w))
           = filter (\<lambda>(m, es). m \<notin> set (n # ns)) (stores w)"
    unfolding filter_filter by (rule filter_cong) auto
  from Cons.IH [OF 2] obtain bs where
    "promise_all (map caches_delete ns) ?w1
       = (Inr bs, ?w1\<lparr>stores := filter (\<lambda>(n, es). n \<notin> set ns) (stores ?w1)\<rparr>)"
    by blast
  then show ?case using 1 3 by simp
qed

subsection \<open>Installation\<close>








lemma keys_put_entry: "fst ` set (put_entry k r es) = insert k (fst ` set es)"
  by (auto simp: put_entry_def image_iff)

lemma keys_fold_put_entry:
  "fst ` set (fold (\<lambda>(k, r). put_entry k r) rs es) = fst ` set es \<union> fst ` set rs"
proof (induction rs arbitrary: es)
  case Nil
  then show ?case by simp
next
  case (Cons p rs)
  obtain k r where p: "p = (k, r)" by (cases p)
  show ?case unfolding p using Cons.IH [of "put_entry k r es"]
    by (simp add: keys_put_entry)
qed

lemma caches_open_nofault:
  assumes "faults w = []"
  shows "\<exists>w1. caches_open name w = (Inr name, w1) \<and> faults w1 = [] \<and> same_entries w w1
              \<and> name \<in> fst ` set (stores w1)
              \<and> (name \<in> fst ` set (stores w) \<longrightarrow> w1 = w)"
  using assms by (simp add: caches_open_def storage_op_nofault same_entries_def)


subsection \<open>Lookups with a storage backend that does not fail\<close>

lemma cache_match_nofault:
  "faults w = [] \<Longrightarrow>
   cache_match cache request w = (Inr (match_entry request (entries cache w)), w)"
  by (simp add: cache_match_def match_entry_def resolve_def storage_op_nofault)

lemma getCachedResponse_nofault:
  assumes "faults w = []"
  shows "\<exists>w2. getCachedResponse request w =
           (Inr (case match_entry request (entries STATIC_CACHE w) of
                   Some c \<Rightarrow> Some c
                 | None \<Rightarrow> match_entry request (entries DYNAMIC_CACHE w)), w2)
         \<and> faults w2 = [] \<and> same_entries w w2"
proof -
  obtain w1 where op: "caches_open STATIC_CACHE w = (Inr STATIC_CACHE, w1)"
    and f1: "faults w1 = []" and s1: "same_entries w w1"
    using caches_open_nofault [OF assms] by blast
  have e1: "entries n w1 = entries n w" for n using s1 by (simp add: same_entries_def)
  show ?thesis
  proof (cases "match_entry request (entries STATIC_CACHE w)")
    case (Some c)
    then show ?thesis using op f1 s1 e1
      by (simp add: getCachedResponse_def promise_defs cache_match_nofault)
  next
    case None
    obtain w2 where op2: "caches_open DYNAMIC_CACHE w1 = (Inr DYNAMIC_CACHE, w2)"
      and f2: "faults w2 = []" and s2: "same_entries w1 w2"
      using caches_open_nofault [OF f1] by blast
    have e2: "entries n w2 = entries n w" for n using s2 e1 by (simp add: same_entries_def)
    have "same_entries w w2" using s1 s2 same_entries_pre(2) by (blast dest: transpD)
    then show ?thesis using None op f1 e1 op2 f2 e2
      by (simp add: getCachedResponse_def promise_defs cache_match_nofault)
  qed
qed

subsection \<open>Maintenance\<close>

lemma update_entries_twice:
  "update_entries c f (update_entries c g w) = update_entries c (f \<circ> g) w"
proof -
  have "(\<lambda>(n, es). if n = c then (n, f es) else (n, es)) \<circ>
        (\<lambda>(n, es). if n = c then (n, g es) else (n, es))
        = (\<lambda>(n, es). if n = c then (n, (f \<circ> g) es) else (n, es))"
    by (auto simp: fun_eq_iff)
  then show ?thesis by (simp add: update_entries_def)
qed

lemma promise_all_cache_delete:
  "faults w = [] \<Longrightarrow>
   \<exists>bs. promise_all (map (\<lambda>k. cache_delete c k) ks) w
     = (Inr bs, update_entries c (filter (\<lambda>(k, v). k \<notin> set ks)) w)"
proof (induction ks arbitrary: w)
  case Nil
  have "map (\<lambda>(n, es). if n = c then (n, es) else (n, es)) (stores w) = stores w"
    by (rule map_idI) auto
  then have "update_entries c (\<lambda>es. es) w = w"
    by (simp add: update_entries_def)
  then show ?case by simp
next
  case (Cons k ks)
  let ?w1 = "update_entries c (filter (\<lambda>(k', v). k' \<noteq> k)) w"
  have 1: "cache_delete c k w = (Inr (k \<in> set (map fst (entries c w))), ?w1)"
    using Cons.prems by (simp add: cache_delete_def storage_op_nofault)
  have 2: "faults ?w1 = []" using Cons.prems by simp
  have 3: "filter (\<lambda>(k', v). k' \<notin> set ks) \<circ> filter (\<lambda>(k', v). k' \<noteq> k)
           = filter (\<lambda>(k', v). k' \<notin> set (k # ks))"
    by (rule ext) (auto intro!: filter_cong)
  have 4: "update_entries c (filter (\<lambda>(k', v). k' \<notin> set ks)) ?w1
           = update_entries c (filter (\<lambda>(k', v). k' \<notin> set (k # ks))) w"
    unfolding update_entries_twice 3 ..
  from Cons.IH [OF 2] obtain bs where
    "promise_all (map (\<lambda>k. cache_delete c k) ks) ?w1
       = (Inr bs, update_entries c (filter (\<lambda>(k, v). k \<notin> set ks)) ?w1)"
    by blast
  then have "promise_all (map (\<lambda>k. cache_delete c k) ks) ?w1
       = (Inr bs, update_entries c (filter (\<lambda>(k', v). k' \<notin> set (k # ks))) w)"
    unfolding 4 .
  then show ?case using 1 by simp
qed

lemma filter_oldest_keys:
  "distinct (map fst es) \<Longrightarrow>
   filter (\<lambda>(k, v). k \<notin> set (take n (map fst es))) es = drop n es"
proof (induction es arbitrary: n)
  case Nil
  then show ?case by simp
next
  case (Cons e es)
  obtain k v where e: "e = (k, v)" by (cases e)
  show ?case
  proof (cases n)
    case 0
    then show ?thesis by (simp add: split_def)
  next
    case (Suc m)
    have "k \<notin> fst ` set es" using Cons.prems e by simp
    then have "filter (\<lambda>(k', v). k' \<notin> insert k (set (take m (map fst es)))) es
               = filter (\<lambda>(k', v). k' \<notin> set (take m (map fst es))) es"
      by (intro filter_cong) (auto simp: image_iff)
    moreover have "distinct (map fst es)" using Cons.prems by simp
    ultimately show ?thesis using Cons.IH [of m] Suc e by simp
  qed
qed

lemma numbered_key_inj: "numbered_key i = numbered_key j \<Longrightarrow> i = j"
proof -
  assume "numbered_key i = numbered_key j"
  then have "length (numbered_key i) = length (numbered_key j)" by simp
  then show "i = j" by (simp add: numbered_key_def)
qed

lemma entries_full_world:
  "entries DYNAMIC_CACHE full_world = map (\<lambda>i. (numbered_key i, page (numbered_key i))) [0..<51]"
  by (simp add: full_world_def offline_world_def entries_def)

subsection \<open>What the strategies leave of the static store\<close>















lemma handleFetch_dispatch:
  "\<exists>s. script_classify (location_origin w) request = Some s
       \<and> handleFetch request w
         = try_catch (run_strategy s request) (\<lambda>error. getOfflineFallback request) w"
  by (simp add: handleFetch_def script_classify_def script_rules_def first_match_def
      matches_network_first_def)

subsection \<open>Cache-first with a response that the cache accepts\<close>



subsection \<open>The fetch handler with a storage backend that does not fail\<close>

lemma still_working_pre: "reflp still_working" "transp still_working"
  by (auto simp: reflp_def transp_def still_working_def)

lemma keeps_working_storage_op:
  assumes "\<And>w. faults (snd (f w)) = faults w"
  shows "keeps still_working (storage_op f)"
proof (rule keepsI)
  fix w
  show "still_working w (snd (storage_op f w))"
  proof (cases "faults w")
    case Nil
    then show ?thesis using assms [of w]
      by (simp add: storage_op_nofault still_working_def)
  next
    case (Cons b bs)
    then show ?thesis by (simp add: still_working_def)
  qed
qed

lemma keeps_working_caches_open: "keeps still_working (caches_open name)"
  unfolding caches_open_def by (rule keeps_working_storage_op) simp

lemma keeps_working_cache_match: "keeps still_working (cache_match cache request)"
  by (cases "http_method request = ''GET''")
     (simp_all add: cache_match_unfold keeps_working_storage_op keeps_resolve still_working_pre)

lemma keeps_working_cache_put: "keeps still_working (cache_put cache request r)"
  by (cases "\<not> cacheable_request request \<or> \<not> storable r")
     (simp_all add: cache_put_unfold keeps_working_storage_op keeps_reject still_working_pre)

lemma keeps_working_getCachedResponse: "keeps still_working (getCachedResponse request)"
  unfolding getCachedResponse_def
  by (auto split: option.splits
      intro!: keeps_await keeps_resolve keeps_working_caches_open keeps_working_cache_match
        still_working_pre)

lemma keeps_working_cacheFirst: "keeps still_working (cacheFirst request)"
  unfolding cacheFirst_def updateCacheInBackground_def
  by (auto split: option.splits
      intro!: keeps_await keeps_try_catch keeps_detached keeps_fetch keeps_resolve
        keeps_working_cache_put keeps_working_caches_open keeps_working_cache_match
        still_working_pre)

lemma keeps_working_networkFirst: "keeps still_working (networkFirst request)"
  unfolding networkFirst_def
  by (auto split: option.splits
      intro!: keeps_await keeps_try_catch keeps_detached keeps_fetch keeps_resolve keeps_reject
        keeps_working_cache_put keeps_working_caches_open keeps_working_getCachedResponse
        still_working_pre)

lemma getOfflineFallback_rest_resolves:
  assumes "faults w = []"
  shows "\<exists>r. fst (getOfflineFallback_rest request w) = Inr r"
proof (cases "accept_includes request ''image''")
  case False
  then show ?thesis by (simp add: getOfflineFallback_rest_def resolve_def)
next
  case True
  obtain v w2 where "getCachedResponse request w = (Inr v, w2)"
    using getCachedResponse_nofault [OF assms] by blast
  then show ?thesis using True
    by (cases v) (simp_all add: getOfflineFallback_rest_def promise_defs)
qed

lemma getOfflineFallback_resolves:
  assumes "faults w = []"
  shows "\<exists>r. fst (getOfflineFallback request w) = Inr r"
proof (cases "accept_includes request ''text/html''")
  case False
  then show ?thesis using getOfflineFallback_rest_resolves [OF assms]
    by (simp add: getOfflineFallback_def)
next
  case True
  obtain v w2 where g: "getCachedResponse (new_Request w ''/Inicio.html'') w = (Inr v, w2)"
    and f2: "faults w2 = []"
    using getCachedResponse_nofault [OF assms] by blast
  show ?thesis
  proof (cases v)
    case None
    then show ?thesis using True g getOfflineFallback_rest_resolves [OF f2, of request]
      by (simp add: getOfflineFallback_def promise_defs)
  next
    case (Some c)
    then show ?thesis using True g by (simp add: getOfflineFallback_def promise_defs)
  qed
qed

lemma handleFetch_resolves_with_working_storage:
  assumes "faults w = []"
  shows "\<exists>r. fst (handleFetch request w) = Inr r"
proof -
  obtain s where run: "handleFetch request w
      = try_catch (run_strategy s request) (\<lambda>error. getOfflineFallback request) w"
    using handleFetch_dispatch by blast
  obtain r w1 where st: "run_strategy s request w = (r, w1)"
    by (cases "run_strategy s request w")
  have "keeps still_working (run_strategy s request)"
    by (cases s) (simp_all add: keeps_working_cacheFirst keeps_working_networkFirst)
  then have f1: "faults w1 = []"
    using keepsD [of still_working "run_strategy s request" w] st assms
    by (simp add: still_working_def)
  show ?thesis
  proof (cases r)
    case (Inr x)
    then show ?thesis using run st by (simp add: try_catch_def)
  next
    case (Inl e)
    then show ?thesis using run st getOfflineFallback_resolves [OF f1, of request]
      by (simp add: try_catch_def)
  qed
qed

lemma distinct_put_entry:
  "distinct (map fst es) \<Longrightarrow> distinct (map fst (put_entry key r es))"
  by (auto simp: put_entry_def distinct_map_filter image_iff)

section \<open>The claims of the specification\<close>

subsection \<open>C1\<close>




subsection \<open>C2\<close>

text \<open>
  C2. \<^verbatim>\<open>handleFetch\<close> can reject. The handler of its \<^verbatim>\<open>try\<close> awaits
  \<^verbatim>\<open>getOfflineFallback\<close>, whose cache lookups are outside any \<^verbatim>\<open>try\<close>: for a
  page request with the network down and a cache storage that rejects twice, the strategy
  fails, the fallback fails too, and the promise given to \<^verbatim>\<open>event.respondWith\<close> is
  rejected with the storage error. (With a storage backend that does not fail the handler
  always resolves with a response: \<open>handleFetch_resolves_with_working_storage\<close>.)
\<close>

theorem handleFetch_rejects_when_fallback_lookup_fails:
  "accept_includes home_request ''text/html''
   \<and> network broken_storage_world (key_of home_request) = None
   \<and> fst (fetch_listener home_request broken_storage_world) = RespondWith (Inl StorageError)"
  by code_simp

subsection \<open>C3\<close>




subsection \<open>C4\<close>

text \<open>
  C4. A request whose URL matches a network-first pattern leaves the entries of every
  cache as they were, whatever the network and the storage backend do; and when the
  network answers, \<^verbatim>\<open>handleFetch\<close> resolves with that answer and the world is
  exactly the one before: no storage operation has run (none has consumed the script
  of the backend), so no cache has been read and none written.
\<close>

theorem network_first_pattern_never_cached:
  assumes "some NETWORK_FIRST_PATTERNS (\<lambda>pattern. test pattern (href (url request)))"
  shows "(\<forall>name. entries name (snd (handleFetch request w)) = entries name w)
         \<and> (\<forall>r. network w (href (url request)) = Some r \<longrightarrow> handleFetch request w = (Inr r, w))"
proof
  have "keeps same_entries
          (try_catch (networkFirst request) (\<lambda>error. getOfflineFallback request))"
    using assms
    by (intro keeps_try_catch keeps_networkFirst_uncached keeps_getOfflineFallback
        shouldCache_network_first same_entries_pre)
  then have "same_entries w (snd (handleFetch request w))"
    using assms by (simp add: keeps_def handleFetch_def)
  then show "\<forall>name. entries name (snd (handleFetch request w)) = entries name w"
    by (simp add: same_entries_def)
next
  show "\<forall>r. network w (href (url request)) = Some r \<longrightarrow> handleFetch request w = (Inr r, w)"
    using assms
    by (simp add: handleFetch_def networkFirst_def shouldCache_def fetch_def promise_defs)
qed

theorem network_first_pattern_never_cached_witness:
  "some NETWORK_FIRST_PATTERNS (\<lambda>pattern. test pattern (href (url api_request)))
   \<and> network online_world (href (url api_request)) = Some (page (href (url api_request)))
   \<and> handleFetch api_request online_world = (Inr (page (href (url api_request))), online_world)"
  using network_first_pattern_never_cached [OF api_request_matches, of online_world]
    api_request_matches
  by (simp add: online_world_def serve_all_def)

subsection \<open>C5\<close>

text \<open>
  C5. The claim as stated fails in its second rule. A request for
  \<^verbatim>\<open>https://cdn.example/js/main.js\<close> matches no network-first pattern, its URL is not in
  the declared list (whose paths belong to the worker's origin) and it is not of the
  worker's origin, so the table of the specification gives network-first; but its path
  \<^verbatim>\<open>/js/main.js\<close> is in the list, and \<^verbatim>\<open>handleFetch\<close> handles it cache-first: the
  response is put into the static store, where network-first leaves the static store
  empty.
\<close>

theorem handleFetch_cache_first_by_path_counterexample:
  "spec_classify (location_origin online_world) cdn_asset_request = Some NetworkFirst
   \<and> map fst (entries STATIC_CACHE (snd (handleFetch cdn_asset_request online_world)))
       = [key_of cdn_asset_request]
   \<and> entries STATIC_CACHE (snd (networkFirst cdn_asset_request online_world)) = []"
  by code_simp

text \<open>
  C5, amended. \<^verbatim>\<open>handleFetch\<close> runs the strategy of the first rule that matches in
  this order: the URL matches a network-first pattern, then network-first; otherwise the
  path of the URL is in the declared list of assets, whatever the origin, or the URL is
  of the worker's origin, then cache-first; otherwise network-first. The strategy runs
  inside the \<^verbatim>\<open>try\<close> whose handler is the offline fallback.
\<close>

theorem handleFetch_first_match_wins:
  "script_classify (location_origin w) request
     = Some (if some NETWORK_FIRST_PATTERNS (\<lambda>pattern. test pattern (href (url request)))
             then NetworkFirst
             else if pathname (url request) \<in> set STATIC_ASSETS
                     \<or> origin (url request) = location_origin w
             then CacheFirst
             else NetworkFirst)
   \<and> (\<exists>s. script_classify (location_origin w) request = Some s
          \<and> handleFetch request w
            = try_catch (run_strategy s request) (\<lambda>error. getOfflineFallback request) w)"
  by (simp add: handleFetch_def script_classify_def script_rules_def first_match_def
      matches_network_first_def)

subsection \<open>C6\<close>




subsection \<open>C7\<close>




subsection \<open>C8\<close>

text \<open>
  C8. The claim as stated fails: activation deletes, and creates nothing. With the two
  stores of an older version and the current static store present, only the current
  static store remains; there is no current dynamic store afterwards.
\<close>

theorem activate_creates_no_dynamic_store_counterexample:
  "DYNAMIC_CACHE \<notin> set (map fst (stores (snd (activate upgrade_world))))"
  by code_simp

text \<open>
  C8, amended. With a storage backend that does not fail, activation deletes exactly the
  stores whose name starts with the application's prefix and is neither the current
  static nor the current dynamic name; every other store is kept as it is, none is
  created, and the clients are claimed.
\<close>

theorem activate_deletes_superseded_stores:
  assumes "faults w = []"
  shows "activate w =
     (Inr (),
      w\<lparr>stores := filter (\<lambda>(name, es). \<not> (startsWith name ''tumatch-protocolo-''
                                          \<and> name \<noteq> STATIC_CACHE \<and> name \<noteq> DYNAMIC_CACHE))
                    (stores w),
        clients_claimed := True\<rparr>)"
proof -
  let ?old = "\<lambda>name. startsWith name ''tumatch-protocolo-''
                       \<and> name \<noteq> STATIC_CACHE \<and> name \<noteq> DYNAMIC_CACHE"
  let ?ns = "filter ?old (map fst (stores w))"
  have keys: "caches_keys w = (Inr (map fst (stores w)), w)"
    using assms by (simp add: caches_keys_def storage_op_nofault)
  obtain bs where del: "promise_all (map caches_delete ?ns) w
      = (Inr bs, w\<lparr>stores := filter (\<lambda>(n, es). n \<notin> set ?ns) (stores w)\<rparr>)"
    using promise_all_caches_delete [OF assms, of ?ns] by blast
  have "filter (\<lambda>(n, es). n \<notin> set ?ns) (stores w) = filter (\<lambda>(n, es). \<not> ?old n) (stores w)"
    by (rule filter_cong) (auto simp: image_iff)
  with keys del show ?thesis
    by (simp add: activate_def promise_defs clients_claim_def)
qed

theorem activate_deletes_superseded_stores_witness:
  "faults upgrade_world = []
   \<and> map fst (stores (snd (activate upgrade_world))) = [STATIC_CACHE]"
  using activate_deletes_superseded_stores [of upgrade_world]
  by (simp add: upgrade_world_def offline_world_def STATIC_CACHE_def DYNAMIC_CACHE_def CACHE_NAME_def)

subsection \<open>C9\<close>

text \<open>
  C9. With a storage backend that does not fail and a dynamic store in which every key
  occurs once, \<^verbatim>\<open>cleanupCaches\<close> resolves; it leaves the dynamic store as it is when the
  store has at most 50 entries, and otherwise removes the first ten entries in insertion
  order and nothing else. From 51 entries it leaves 41.
\<close>

theorem cleanupCaches_evicts_ten_oldest:
  assumes "faults w = []" and "distinct (map fst (entries DYNAMIC_CACHE w))"
  shows "fst (cleanupCaches w) = Inr ()
     \<and> entries DYNAMIC_CACHE (snd (cleanupCaches w))
         = (if length (entries DYNAMIC_CACHE w) > 50 then drop 10 (entries DYNAMIC_CACHE w)
            else entries DYNAMIC_CACHE w)
     \<and> (length (entries DYNAMIC_CACHE w) = 51 \<longrightarrow>
          length (entries DYNAMIC_CACHE (snd (cleanupCaches w))) = 41)"
proof -
  let ?es = "entries DYNAMIC_CACHE w"
  obtain w1 where op: "caches_open DYNAMIC_CACHE w = (Inr DYNAMIC_CACHE, w1)"
    and f1: "faults w1 = []" and s1: "same_entries w w1"
    and in1: "DYNAMIC_CACHE \<in> fst ` set (stores w1)"
    using caches_open_nofault [OF assms(1)] by blast
  have e1: "entries DYNAMIC_CACHE w1 = ?es" using s1 by (simp add: same_entries_def)
  have keys: "cache_keys DYNAMIC_CACHE w1 = (Inr (map fst ?es), w1)"
    using f1 e1 by (simp add: cache_keys_def storage_op_nofault)
  let ?w2 = "update_entries DYNAMIC_CACHE
               (filter (\<lambda>(k, v). k \<notin> set (take 10 (map fst ?es)))) w1"
  obtain bs where del:
    "promise_all (map (\<lambda>request. cache_delete DYNAMIC_CACHE request) (take 10 (map fst ?es))) w1
       = (Inr bs, ?w2)"
    using promise_all_cache_delete [OF f1] by blast
  have e2: "entries DYNAMIC_CACHE ?w2 = drop 10 ?es"
    using in1 e1 filter_oldest_keys [OF assms(2), of 10] by (simp add: entries_update_entries)
  have run: "cleanupCaches w = (Inr (), if length ?es > 50 then ?w2 else w1)"
    using op keys del by (simp add: cleanupCaches_def promise_defs)
  have r2: "entries DYNAMIC_CACHE (snd (cleanupCaches w))
              = (if length ?es > 50 then drop 10 ?es else ?es)"
    using run e1 e2 by simp
  then have "length ?es = 51 \<longrightarrow> length (entries DYNAMIC_CACHE (snd (cleanupCaches w))) = 41"
    by simp
  with r2 run show ?thesis by simp
qed

theorem cleanupCaches_evicts_ten_oldest_witness:
  "faults full_world = []
   \<and> distinct (map fst (entries DYNAMIC_CACHE full_world))
   \<and> length (entries DYNAMIC_CACHE full_world) = 51
   \<and> entries DYNAMIC_CACHE (snd (cleanupCaches full_world))
       = drop 10 (entries DYNAMIC_CACHE full_world)
   \<and> length (entries DYNAMIC_CACHE (snd (cleanupCaches full_world))) = 41"
proof -
  have a: "faults full_world = []" by (simp add: full_world_def offline_world_def)
  have b: "distinct (map fst (entries DYNAMIC_CACHE full_world))"
    by (simp add: entries_full_world distinct_map comp_def inj_on_def)
      (blast dest: numbered_key_inj)
  have c: "length (entries DYNAMIC_CACHE full_world) = 51"
    by (simp add: entries_full_world)
  show ?thesis using cleanupCaches_evicts_ten_oldest [OF a b] a b c by simp
qed

subsection \<open>C10\<close>

text \<open>
  C10. The claim as stated fails: a GET request on another scheme that is not http(s),
  here \<^verbatim>\<open>moz-extension:\<close>, is not passed through; it is handled, and with the
  network down it is answered with the generic offline response.
\<close>

theorem fetch_listener_ignores_only_chrome_extension_counterexample:
  "protocol (url extension_request) \<noteq> ''http:''
   \<and> protocol (url extension_request) \<noteq> ''https:''
   \<and> fst (fetch_listener extension_request offline_world) = RespondWith (Inr offline_response)"
  by code_simp

text \<open>
  C10, amended. The listener leaves a request alone exactly when its method is not GET or
  its scheme is \<^verbatim>\<open>chrome-extension:\<close>, and then the world is untouched; every other
  request, whatever its scheme, is answered by \<^verbatim>\<open>handleFetch\<close>.
\<close>

theorem fetch_listener_pass_through:
  "fetch_listener request w =
     (if http_method request \<noteq> ''GET'' \<or> protocol (url request) = ''chrome-extension:''
      then (PassThrough, w)
      else (RespondWith (fst (handleFetch request w)), snd (handleFetch request w)))"
  by (simp add: fetch_listener_def split: prod.splits)

theorem fetch_listener_pass_through_witness:
  "protocol (url chrome_extension_request) = ''chrome-extension:''
   \<and> fetch_listener chrome_extension_request online_world = (PassThrough, online_world)"
  using fetch_listener_pass_through [of chrome_extension_request online_world]
  by (simp add: chrome_extension_request_def get_request_def)

end
